theory Spec2Isabelle
  imports Main
begin

section \<open>JavaScript values held by the script preview\<close>

text \<open>
  The answer mapping of \<open>AgentPreview.tsx\<close> is a \<open>Record<string, any>\<close>. The handlers of
  the component store strings (\<open>e.target.value\<close>) and arrays of strings in it, and a display
  condition carries a \<open>value\<close> of type \<open>any\<close>. Primitives are compared by \<open>===\<close>, which on
  the primitives below is plain equality (numbers are integers here; \<open>NaN\<close> is left out).
  The mapping is a plain object, created by \<open>useState<Record<string, any>>({})\<close>, so a key
  that was never stored is looked up on \<open>Object.prototype\<close>: \<open>Ref\<close> stands for the function
  or object found there, named by its property; it is truthy, not an array, not iterable,
  and \<open>===\<close> to nothing but itself.
\<close>

datatype jsprim = JUndefined | JNull | JBool bool | JNum int | JStr string

datatype jsval = Prim jsprim | Arr "jsprim list" | Ref string

datatype js_error = TypeError

type_synonym form_values = "string \<rightharpoonup> jsval"

text \<open>JavaScript truthiness, as used by \<open>!condition.blockName\<close> and \<open>prev[name] || []\<close>.\<close>

fun truthy_prim :: "jsprim \<Rightarrow> bool" where
  "truthy_prim JUndefined = False"
| "truthy_prim JNull = False"
| "truthy_prim (JBool b) = b"
| "truthy_prim (JNum n) = (n \<noteq> 0)"
| "truthy_prim (JStr s) = (s \<noteq> [])"

fun truthy :: "jsval \<Rightarrow> bool" where
  "truthy (Prim p) = truthy_prim p"
| "truthy (Arr xs) = True"
| "truthy (Ref r) = True"

text \<open>The properties of \<open>Object.prototype\<close>, which every plain object inherits.\<close>

definition object_prototype_names :: "string list" where
  "object_prototype_names =
     [''constructor'', ''__defineGetter__'', ''__defineSetter__'', ''hasOwnProperty'',
      ''__lookupGetter__'', ''__lookupSetter__'', ''isPrototypeOf'', ''propertyIsEnumerable'',
      ''toString'', ''valueOf'', ''__proto__'', ''toLocaleString'']"

text \<open>
  \<open>values[key]\<close>: the stored value (an own property hides an inherited one); for a key
  never stored, the inherited member when the key names one, else \<open>undefined\<close>.
\<close>

definition lookup :: "form_values \<Rightarrow> string \<Rightarrow> jsval" where
  "lookup vals k =
     (case vals k of
        Some v \<Rightarrow> v
      | None \<Rightarrow> if k \<in> set object_prototype_names then Ref k else Prim JUndefined)"

section \<open>Display conditions\<close>

text \<open>
  \<open>DisplayCondition\<close> is \<open>{ blockName: string | null, value: any }\<close>; \<open>None\<close> stands for a
  \<open>blockName\<close> that is \<open>null\<close> or absent. The value of a condition is data of a saved
  script, a primitive; a function or object found on \<open>Object.prototype\<close> is never \<open>===\<close>
  to it.
\<close>

record DisplayCondition =
  blockName :: "string option"
  cond_value :: jsprim

text \<open>
  \<^verbatim>\<open>
  const checkCondition = (condition, values) => {
      if (!condition || !condition.blockName) return true;
      const targetValue = values[condition.blockName];
      if (Array.isArray(targetValue)) {
          return targetValue.includes(condition.value);
      }
      return targetValue === condition.value;
  };
  \<close>
\<close>

definition checkCondition :: "DisplayCondition option \<Rightarrow> form_values \<Rightarrow> bool" where
  "checkCondition condition vals =
     (case condition of
        None \<Rightarrow> True
      | Some c \<Rightarrow>
          (case blockName c of
             None \<Rightarrow> True
           | Some bn \<Rightarrow>
               if bn = [] then True
               else (case lookup vals bn of
                       Arr xs \<Rightarrow> cond_value c \<in> set xs
                     | Prim p \<Rightarrow> p = cond_value c
                     | Ref r \<Rightarrow> False)))"

text \<open>
  The rule as the specification words it: true when the condition is null or its
  \<open>blockName\<close> is null or absent; otherwise membership for a stored array, strict equality
  for any other stored answer, and false when the key is absent.
\<close>

definition evaluateVisibility_spec :: "DisplayCondition option \<Rightarrow> form_values \<Rightarrow> bool" where
  "evaluateVisibility_spec condition vals =
     (case condition of
        None \<Rightarrow> True
      | Some c \<Rightarrow>
          (case blockName c of
             None \<Rightarrow> True
           | Some bn \<Rightarrow>
               (case vals bn of
                  None \<Rightarrow> False
                | Some (Arr xs) \<Rightarrow> cond_value c \<in> set xs
                | Some (Prim p) \<Rightarrow> p = cond_value c
                | Some (Ref r) \<Rightarrow> False)))"

section \<open>Recording answers\<close>

text \<open>
  \<^verbatim>\<open>
  const handleValueChange = (name, value) => {
      setFormValues(prev => ({ ...prev, [name]: value }));
  };
  \<close>
\<close>

definition handleValueChange :: "string \<Rightarrow> jsval \<Rightarrow> form_values \<Rightarrow> form_values" where
  "handleValueChange name v prev = prev(name \<mapsto> v)"

text \<open>
  \<^verbatim>\<open>
  const handleCheckboxChange = (name, option, checked) => {
    setFormValues(prev => {
        const existing: string[] = prev[name] || [];
        if (checked) {
            return { ...prev, [name]: [...existing, option] };
        } else {
            return { ...prev, [name]: existing.filter(item => item !== option) };
        }
    });
  };
  \<close>
  \<open>existing\<close> is whatever \<open>prev[name]\<close> reads when that is truthy, an inherited member of
  \<open>Object.prototype\<close> included. Spreading an array gives its elements and spreading a
  string its characters; any other truthy value is not iterable. Only an array has
  \<open>filter\<close>. Both failures are a \<open>TypeError\<close>.
\<close>

definition existing_or_empty :: "form_values \<Rightarrow> string \<Rightarrow> jsval" where
  "existing_or_empty prev name = (if truthy (lookup prev name) then lookup prev name else Arr [])"

fun spread :: "jsval \<Rightarrow> js_error + jsprim list" where
  "spread (Arr xs) = Inr xs"
| "spread (Prim (JStr s)) = Inr (map (\<lambda>c. JStr [c]) s)"
| "spread (Prim p) = Inl TypeError"
| "spread (Ref r) = Inl TypeError"

fun js_filter :: "(jsprim \<Rightarrow> bool) \<Rightarrow> jsval \<Rightarrow> js_error + jsprim list" where
  "js_filter P (Arr xs) = Inr (filter P xs)"
| "js_filter P (Prim p) = Inl TypeError"
| "js_filter P (Ref r) = Inl TypeError"

definition handleCheckboxChange ::
  "string \<Rightarrow> string \<Rightarrow> bool \<Rightarrow> form_values \<Rightarrow> js_error + form_values" where
  "handleCheckboxChange name option checked prev =
     (let existing = existing_or_empty prev name in
      if checked then
        (case spread existing of
           Inl e \<Rightarrow> Inl e
         | Inr xs \<Rightarrow> Inr (prev(name \<mapsto> Arr (xs @ [JStr option]))))
      else
        (case js_filter (\<lambda>item. item \<noteq> JStr option) existing of
           Inl e \<Rightarrow> Inl e
         | Inr xs \<Rightarrow> Inr (prev(name \<mapsto> Arr xs))))"

text \<open>A run of checkbox events on one block, stopping at the first error.\<close>

fun checkbox_events :: "string \<Rightarrow> (string \<times> bool) list \<Rightarrow> form_values \<Rightarrow> js_error + form_values" where
  "checkbox_events name [] prev = Inr prev"
| "checkbox_events name ((opt, checked) # es) prev =
     (case handleCheckboxChange name opt checked prev of
        Inl e \<Rightarrow> Inl e
      | Inr next \<Rightarrow> checkbox_events name es next)"

section \<open>Scripts, pages and button actions\<close>

text \<open>
  The records hold the fields of the types imported from \<open>types.ts\<close> that \<open>AgentPreview.tsx\<close> reads. A \<open>ButtonAction\<close> is dispatched on its
  \<open>type\<close> string, with a default branch, and \<open>pageId\<close> may be missing.
\<close>

record ScriptBlock =
  block_id :: string
  block_type :: string
  block_name :: string
  displayCondition :: "DisplayCondition option"

record Page =
  page_id :: string
  page_name :: string
  blocks :: "ScriptBlock list"

record SavedScript =
  script_name :: string
  startPageId :: string
  pages :: "Page list"

record ButtonAction =
  action_type :: string
  pageId :: "string option"

text \<open>\<open>Array.prototype.findIndex\<close>: the first index whose element satisfies the test, else -1.\<close>

fun findIndex :: "('a \<Rightarrow> bool) \<Rightarrow> 'a list \<Rightarrow> int" where
  "findIndex P [] = -1"
| "findIndex P (x # xs) =
     (if P x then 0 else (let r = findIndex P xs in if r < 0 then -1 else r + 1))"

text \<open>
  The state of one preview: the answers, the page pointer, and the payloads of the
  \<open>alert\<close> calls made so far (the \<open>save\<close> action shows the answers in an alert).
\<close>

record Preview =
  formValues :: form_values
  currentPageId :: string
  alerts :: "form_values list"

definition initPreview :: "SavedScript \<Rightarrow> Preview" where
  "initPreview script = \<lparr>formValues = Map.empty, currentPageId = startPageId script, alerts = []\<rparr>"

text \<open>
  \<^verbatim>\<open>
  const handleButtonClick = (action) => {
    switch(action.type) {
        case 'save':
            alert('...' + JSON.stringify(formValues, null, 2));
            break;
        case 'navigate':
            if (action.pageId) setCurrentPageId(action.pageId);
            break;
        case 'next': {
            const currentIndex = script.pages.findIndex(p => p.id === currentPageId);
            if (currentIndex < script.pages.length - 1) {
                setCurrentPageId(script.pages[currentIndex + 1].id);
            }
            break;
        }
        case 'previous': {
            const currentIndex = script.pages.findIndex(p => p.id === currentPageId);
            if (currentIndex > 0) {
                setCurrentPageId(script.pages[currentIndex - 1].id);
            }
            break;
        }
        default:
            break;
    }
  };
  \<close>
  Both index reads are in range: \<open>currentIndex + 1\<close> is at most \<open>length - 1\<close> and
  \<open>currentIndex - 1\<close> is at least 0 and below \<open>currentIndex\<close>.
\<close>

definition currentIndex :: "SavedScript \<Rightarrow> Preview \<Rightarrow> int" where
  "currentIndex script st = findIndex (\<lambda>p. page_id p = currentPageId st) (pages script)"

definition handleButtonClick :: "SavedScript \<Rightarrow> ButtonAction \<Rightarrow> Preview \<Rightarrow> Preview" where
  "handleButtonClick script action st =
     (if action_type action = ''save'' then st\<lparr>alerts := alerts st @ [formValues st]\<rparr>
      else if action_type action = ''navigate'' then
        (case pageId action of
           None \<Rightarrow> st
         | Some target \<Rightarrow> if target = [] then st else st\<lparr>currentPageId := target\<rparr>)
      else if action_type action = ''next'' then
        (if currentIndex script st < int (length (pages script)) - 1
         then st\<lparr>currentPageId := page_id (pages script ! nat (currentIndex script st + 1))\<rparr>
         else st)
      else if action_type action = ''previous'' then
        (if currentIndex script st > 0
         then st\<lparr>currentPageId := page_id (pages script ! nat (currentIndex script st - 1))\<rparr>
         else st)
      else st)"

text \<open>A sequence of button clicks, in order.\<close>

fun dispatchAll :: "SavedScript \<Rightarrow> ButtonAction list \<Rightarrow> Preview \<Rightarrow> Preview" where
  "dispatchAll script [] st = st"
| "dispatchAll script (a # as) st = dispatchAll script as (handleButtonClick script a st)"

definition page_ids :: "SavedScript \<Rightarrow> string set" where
  "page_ids script = page_id ` set (pages script)"

text \<open>
  What the component shows for the page pointer:
  \<^verbatim>\<open>
  const currentPage = script.pages.find(p => p.id === currentPageId);
  ... Page Actuelle: {currentPage?.name} ...
  {currentPage?.blocks
      .filter(block => block.type !== 'group' && checkCondition(block.displayCondition, formValues))
      .map(block => <div key={block.id} ...>{renderBlock(block)}</div>)}
  \<close>
  When no page is found both expressions are \<open>undefined\<close>, which React renders as nothing:
  an empty page name and no block at all.
\<close>

definition currentPage :: "SavedScript \<Rightarrow> Preview \<Rightarrow> Page option" where
  "currentPage script st = find (\<lambda>p. page_id p = currentPageId st) (pages script)"

definition shownPageName :: "SavedScript \<Rightarrow> Preview \<Rightarrow> string" where
  "shownPageName script st = (case currentPage script st of None \<Rightarrow> [] | Some p \<Rightarrow> page_name p)"

definition shownBlocks :: "SavedScript \<Rightarrow> Preview \<Rightarrow> ScriptBlock list" where
  "shownBlocks script st =
     (case currentPage script st of
        None \<Rightarrow> []
      | Some p \<Rightarrow>
          filter (\<lambda>b. block_type b \<noteq> ''group'' \<and> checkCondition (displayCondition b) (formValues st))
            (blocks p))"

section \<open>The agent console\<close>

text \<open>
  \<open>AgentView\<close> keeps three pieces of React state (\<open>ctiStatus\<close>, \<open>statusTimer\<close>,
  \<open>currentContact\<close>) and owns two kinds of timer: the one-second interval of its status
  effect and the ten-second timeouts started by \<open>handleEndCall\<close>. The props \<open>agent\<close> and
  \<open>campaigns\<close> are carried in the state so that a handler writing to them would show.
\<close>

datatype AgentCtiStatus = LOGGED_OUT | WAITING | IN_CALL | WRAP_UP | PAUSED

record Contact =
  contact_id :: string
  contact_status :: string

record Campaign =
  campaign_id :: string
  isActive :: bool
  scriptId :: string
  contacts :: "Contact list"

record User =
  user_id :: string
  campaignIds :: "string list"

text \<open>The one alert of the console: \<open>alert("Plus de contacts ... dans cette campagne.")\<close>.\<close>

datatype notice = NoMoreContacts

text \<open>
  \<open>mounted\<close> tells whether the component is still in the tree; \<open>intervalRunning\<close> whether the
  interval of the status effect exists; \<open>timeouts\<close> holds, for every pending \<open>setTimeout\<close>
  of \<open>handleEndCall\<close>, the whole seconds left before it is due; \<open>timeoutsFired\<close> counts the
  runs of that timeout's callback; \<open>notices\<close> lists the alerts shown.
\<close>

record AgentView =
  agent :: User
  campaigns :: "Campaign list"
  ctiStatus :: AgentCtiStatus
  statusTimer :: nat
  currentContact :: "Contact option"
  mounted :: bool
  intervalRunning :: bool
  timeouts :: "nat list"
  timeoutsFired :: nat
  notices :: "notice list"

text \<open>
  \<^verbatim>\<open>
  const agentCampaign = useMemo(() => {
      return campaigns.find(c => c.id === agent.campaignIds[0] && c.isActive);
  }, [agent, campaigns]);
  \<close>
  With no campaign id the comparison is against \<open>undefined\<close> and no campaign matches.
\<close>

definition agentCampaign :: "User \<Rightarrow> Campaign list \<Rightarrow> Campaign option" where
  "agentCampaign a cs =
     (case campaignIds a of
        [] \<Rightarrow> None
      | cid # _ \<Rightarrow> find (\<lambda>c. campaign_id c = cid \<and> isActive c) cs)"

text \<open>
  \<^verbatim>\<open>
  useEffect(() => {
      if (ctiStatus === 'LOGGED_OUT') {
          setStatusTimer(0);
          return; // No interval needed when logged out
      }
      const intervalId = setInterval(() => {
          setStatusTimer(prev => prev + 1);
      }, 1000);
      // This runs when the component unmounts or ctiStatus changes.
      return () => clearInterval(intervalId);
  }, [ctiStatus]);
  \<close>
  The effect runs after the first render and after every render in which \<open>ctiStatus\<close> has
  changed, its previous cleanup first: the old interval is cleared and, unless the status is
  \<open>LOGGED_OUT\<close>, a new one is created.
\<close>

definition statusEffect :: "AgentView \<Rightarrow> AgentView" where
  "statusEffect v =
     (if ctiStatus v = LOGGED_OUT then v\<lparr>statusTimer := 0, intervalRunning := False\<rparr>
      else v\<lparr>intervalRunning := True\<rparr>)"

text \<open>
  The state setters. React drops an update made on a component that is no longer mounted,
  and a \<open>setCtiStatus\<close> with the current value causes no render, hence no run of the effect.
\<close>

definition setCtiStatus :: "AgentCtiStatus \<Rightarrow> AgentView \<Rightarrow> AgentView" where
  "setCtiStatus s v =
     (if \<not> mounted v \<or> ctiStatus v = s then v else statusEffect (v\<lparr>ctiStatus := s\<rparr>))"

definition setStatusTimer :: "nat \<Rightarrow> AgentView \<Rightarrow> AgentView" where
  "setStatusTimer n v = (if mounted v then v\<lparr>statusTimer := n\<rparr> else v)"

definition setCurrentContact :: "Contact option \<Rightarrow> AgentView \<Rightarrow> AgentView" where
  "setCurrentContact c v = (if mounted v then v\<lparr>currentContact := c\<rparr> else v)"

text \<open>
  Mounting: \<open>useState('LOGGED_OUT')\<close>, \<open>useState(0)\<close>, \<open>useState(null)\<close>, then the effect.
\<close>

definition mount :: "User \<Rightarrow> Campaign list \<Rightarrow> AgentView" where
  "mount a cs =
     statusEffect
       \<lparr>agent = a, campaigns = cs, ctiStatus = LOGGED_OUT, statusTimer = 0,
        currentContact = None, mounted = True, intervalRunning = False, timeouts = [],
        timeoutsFired = 0, notices = []\<rparr>"

text \<open>
  \<^verbatim>\<open>
  const handleLoginClick = () => { setCtiStatus('WAITING'); setStatusTimer(0); };

  const handleNextCall = () => {
      if (!agentCampaign) return;
      const nextContact = agentCampaign.contacts.find(c => c.status === 'pending');
      if (nextContact) {
          setCurrentContact(nextContact);
          setCtiStatus('IN_CALL');
          setStatusTimer(0);
      } else {
          alert("Plus de contacts ... dans cette campagne.");
          setCtiStatus('WAITING');
      }
  };

  const handleEndCall = () => {
      setCtiStatus('WRAP_UP');
      setStatusTimer(0);
      // After 10 seconds of wrap-up, go back to waiting
      setTimeout(() => {
          setCtiStatus('WAITING');
          setCurrentContact(null);
          setStatusTimer(0);
      }, 10000);
  };

  const handlePause = () => { setCtiStatus('PAUSED'); setStatusTimer(0); };
  const handleResume = () => { setCtiStatus('WAITING'); setStatusTimer(0); };
  \<close>
\<close>

definition handleLoginClick :: "AgentView \<Rightarrow> AgentView" where
  "handleLoginClick v = setStatusTimer 0 (setCtiStatus WAITING v)"

definition nextContact :: "Campaign \<Rightarrow> Contact option" where
  "nextContact camp = find (\<lambda>c. contact_status c = ''pending'') (contacts camp)"

definition handleNextCall :: "AgentView \<Rightarrow> AgentView" where
  "handleNextCall v =
     (case agentCampaign (agent v) (campaigns v) of
        None \<Rightarrow> v
      | Some camp \<Rightarrow>
          (case nextContact camp of
             Some c \<Rightarrow> setStatusTimer 0 (setCtiStatus IN_CALL (setCurrentContact (Some c) v))
           | None \<Rightarrow> setCtiStatus WAITING (v\<lparr>notices := notices v @ [NoMoreContacts]\<rparr>)))"

definition handleEndCall :: "AgentView \<Rightarrow> AgentView" where
  "handleEndCall v =
     (let v' = setStatusTimer 0 (setCtiStatus WRAP_UP v) in v'\<lparr>timeouts := timeouts v' @ [10]\<rparr>)"

definition wrapUpTimeout :: "AgentView \<Rightarrow> AgentView" where
  "wrapUpTimeout v =
     (let v' = setStatusTimer 0 (setCurrentContact None (setCtiStatus WAITING v))
      in v'\<lparr>timeoutsFired := Suc (timeoutsFired v')\<rparr>)"

definition handlePause :: "AgentView \<Rightarrow> AgentView" where
  "handlePause v = setStatusTimer 0 (setCtiStatus PAUSED v)"

definition handleResume :: "AgentView \<Rightarrow> AgentView" where
  "handleResume v = setStatusTimer 0 (setCtiStatus WAITING v)"

text \<open>
  Logging out is the parent's \<open>onLogout={() => setCurrentUser(null)}\<close>: the application stops
  rendering \<open>AgentView\<close>, so the component is unmounted and the cleanup of its effect clears
  the interval. Nothing clears the timeouts of \<open>handleEndCall\<close>: the value returned by
  \<open>setTimeout\<close> is not kept.
\<close>

definition unmount :: "AgentView \<Rightarrow> AgentView" where
  "unmount v = v\<lparr>mounted := False, intervalRunning := False\<rparr>"

text \<open>
  One second of wall-clock time. Timeouts that are due run first (a timeout of
  \<open>handleEndCall\<close> is created before the interval that the same status change installs);
  then the interval ticks, unless the status has just changed, in which case it was
  cleared and the interval that replaces it is not due yet.
\<close>

definition second :: "AgentView \<Rightarrow> AgentView" where
  "second v =
     (let due = filter (\<lambda>t. t \<le> 1) (timeouts v);
          v1 = v\<lparr>timeouts := map (\<lambda>t. t - 1) (filter (\<lambda>t. 1 < t) (timeouts v))\<rparr>;
          v2 = fold (\<lambda>_. wrapUpTimeout) due v1
      in if intervalRunning v2 \<and> ctiStatus v2 = ctiStatus v
         then v2\<lparr>statusTimer := Suc (statusTimer v2)\<rparr> else v2)"

text \<open>
  What can happen to a console. A button can be clicked only while it is rendered:
  \<^verbatim>\<open>
  {ctiStatus === 'LOGGED_OUT' && <button onClick={handleLoginClick}>...}
  {ctiStatus === 'WAITING' && <> <button onClick={handleNextCall}>...
                                  <button onClick={handlePause}>... </>}
  {ctiStatus === 'PAUSED' && <button onClick={handleResume}>...}
  {ctiStatus === 'IN_CALL' && <button onClick={handleEndCall}>...}
  \<close>
  and the logout button of the header is always there while the component is.
\<close>

datatype event =
  ClickLogin | ClickNextCall | ClickPause | ClickResume | ClickEndCall | ClickLogout | Second

fun step :: "event \<Rightarrow> AgentView \<Rightarrow> AgentView" where
  "step ClickLogin v = (if mounted v \<and> ctiStatus v = LOGGED_OUT then handleLoginClick v else v)"
| "step ClickNextCall v = (if mounted v \<and> ctiStatus v = WAITING then handleNextCall v else v)"
| "step ClickPause v = (if mounted v \<and> ctiStatus v = WAITING then handlePause v else v)"
| "step ClickResume v = (if mounted v \<and> ctiStatus v = PAUSED then handleResume v else v)"
| "step ClickEndCall v = (if mounted v \<and> ctiStatus v = IN_CALL then handleEndCall v else v)"
| "step ClickLogout v = (if mounted v then unmount v else v)"
| "step Second v = second v"

fun run :: "event list \<Rightarrow> AgentView \<Rightarrow> AgentView" where
  "run [] v = v"
| "run (e # es) v = run es (step e v)"

section \<open>The application around the console\<close>

text \<open>
  The console exists only while the application renders it:
  \<^verbatim>\<open>
  const [currentUser, setCurrentUser] = useState<User | null>(null);
  ...
  if (!currentUser) {
      return <LoginScreen users={users} onLoginSuccess={setCurrentUser} />;
  }
  if (currentUser.role === 'Agent') {
      return <AgentView agent={currentUser} campaigns={campaigns} savedScripts={savedScripts}
                        onLogout={() => setCurrentUser(null)} />;
  }
  \<close>
  \<open>console\<close> is the state of the rendered \<open>AgentView\<close>, if any. When an agent logs in the
  component is mounted with fresh state; when the agent logs out it is unmounted and React
  discards its state. Users of another role get the administration screens, which are
  left out: \<open>LoginSuccess\<close> is the login of an agent.
\<close>

record App =
  appCampaigns :: "Campaign list"
  currentUser :: "User option"
  console :: "AgentView option"

definition startApp :: "Campaign list \<Rightarrow> App" where
  "startApp cs = \<lparr>appCampaigns = cs, currentUser = None, console = None\<rparr>"

definition onLoginSuccess :: "User \<Rightarrow> App \<Rightarrow> App" where
  "onLoginSuccess a app = app\<lparr>currentUser := Some a, console := Some (mount a (appCampaigns app))\<rparr>"

definition onLogout :: "App \<Rightarrow> App" where
  "onLogout app = app\<lparr>currentUser := None, console := None\<rparr>"

text \<open>
  The login screen is there only while nobody is logged in, and the events of the console
  only while the console is; its logout button calls \<open>onLogout\<close>.
\<close>

datatype app_event = LoginSuccess User | Console event

fun appStep :: "app_event \<Rightarrow> App \<Rightarrow> App" where
  "appStep (LoginSuccess a) app = (if currentUser app = None then onLoginSuccess a app else app)"
| "appStep (Console e) app =
     (case console app of
        None \<Rightarrow> app
      | Some v \<Rightarrow> if e = ClickLogout then onLogout app else app\<lparr>console := Some (step e v)\<rparr>)"

fun appRun :: "app_event list \<Rightarrow> App \<Rightarrow> App" where
  "appRun [] app = app"
| "appRun (e # es) app = appRun es (appStep e app)"

section \<open>Sample data\<close>

text \<open>A script of three pages, the first with one block, and the actions used on it.\<close>

definition script0 :: SavedScript where
  "script0 = \<lparr>script_name = ''Demo'', startPageId = ''p1'',
     pages = [\<lparr>page_id = ''p1'', page_name = ''Accueil'',
               blocks = [\<lparr>block_id = ''b1'', block_type = ''label'', block_name = ''titre'',
                          displayCondition = None\<rparr>]\<rparr>,
              \<lparr>page_id = ''p2'', page_name = ''Suite'', blocks = []\<rparr>,
              \<lparr>page_id = ''p3'', page_name = ''Fin'', blocks = []\<rparr>]\<rparr>"

definition onPage :: "string \<Rightarrow> Preview" where
  "onPage p = \<lparr>formValues = Map.empty, currentPageId = p, alerts = []\<rparr>"

definition navigateTo :: "string \<Rightarrow> ButtonAction" where
  "navigateTo target = \<lparr>action_type = ''navigate'', pageId = Some target\<rparr>"

definition nextAction :: ButtonAction where
  "nextAction = \<lparr>action_type = ''next'', pageId = None\<rparr>"

definition previousAction :: ButtonAction where
  "previousAction = \<lparr>action_type = ''previous'', pageId = None\<rparr>"

text \<open>
  An action that cannot leave the page set: anything but a \<open>navigate\<close> whose target is a
  non-empty identifier outside the script.
\<close>

definition navigate_ok :: "SavedScript \<Rightarrow> ButtonAction \<Rightarrow> bool" where
  "navigate_ok script a =
     (action_type a = ''navigate'' \<longrightarrow>
        (case pageId a of None \<Rightarrow> True | Some target \<Rightarrow> target = [] \<or> target \<in> page_ids script))"

text \<open>
  A campaign whose contacts are \<open>[{id:1, status:'done'}, {id:2, status:'pending'},
  {id:3, status:'pending'}]\<close>, one with no pending contact, and three agents: one assigned
  to each campaign and one with no campaign.
\<close>

definition campaign0 :: Campaign where
  "campaign0 = \<lparr>campaign_id = ''camp1'', isActive = True, scriptId = ''s1'',
     contacts = [\<lparr>contact_id = ''1'', contact_status = ''done''\<rparr>,
                 \<lparr>contact_id = ''2'', contact_status = ''pending''\<rparr>,
                 \<lparr>contact_id = ''3'', contact_status = ''pending''\<rparr>]\<rparr>"

definition contact2 :: Contact where
  "contact2 = \<lparr>contact_id = ''2'', contact_status = ''pending''\<rparr>"

definition campaignDone :: Campaign where
  "campaignDone = \<lparr>campaign_id = ''camp2'', isActive = True, scriptId = ''s1'',
     contacts = [\<lparr>contact_id = ''1'', contact_status = ''done''\<rparr>,
                 \<lparr>contact_id = ''2'', contact_status = ''called''\<rparr>]\<rparr>"

definition agent0 :: User where
  "agent0 = \<lparr>user_id = ''u1'', campaignIds = [''camp1'']\<rparr>"

definition agentDone :: User where
  "agentDone = \<lparr>user_id = ''u3'', campaignIds = [''camp2'']\<rparr>"

definition agentNoCampaign :: User where
  "agentNoCampaign = \<lparr>user_id = ''u2'', campaignIds = []\<rparr>"

text \<open>
  A session that logs in, takes a call, hangs up, stays three seconds in wrap-up and logs
  out; and the seven seconds that remain of the ten.
\<close>

definition logoutInWrapUp :: "event list" where
  "logoutInWrapUp = [ClickLogin, ClickNextCall, ClickEndCall, Second, Second, Second, ClickLogout]"

definition sevenSeconds :: "event list" where
  "sevenSeconds = [Second, Second, Second, Second, Second, Second, Second]"

text \<open>
  What holds of every console reached from \<open>mount\<close> by clicks and seconds: the counter
  is 0 while logged out; while mounted the interval exists exactly when the status is not
  \<open>LOGGED_OUT\<close>, no contact is held in the statuses \<open>LOGGED_OUT\<close>, \<open>WAITING\<close> and
  \<open>PAUSED\<close>, and a timeout is pending exactly in \<open>WRAP_UP\<close>, due when the counter reaches
  ten; once unmounted no interval exists.
\<close>

definition session_inv :: "AgentView \<Rightarrow> bool" where
  "session_inv v =
     ((ctiStatus v = LOGGED_OUT \<longrightarrow> statusTimer v = 0)
      \<and> (if mounted v then
            intervalRunning v = (ctiStatus v \<noteq> LOGGED_OUT)
            \<and> (ctiStatus v \<in> {LOGGED_OUT, WAITING, PAUSED} \<longrightarrow> currentContact v = None)
            \<and> (if ctiStatus v = WRAP_UP
                then statusTimer v < 10 \<and> timeouts v = [10 - statusTimer v]
                else timeouts v = [])
          else \<not> intervalRunning v))"

section \<open>Display conditions: what \<open>checkCondition\<close> computes\<close>

text \<open>
  C3, counterexample. A condition whose \<open>blockName\<close> is the empty string is neither null
  nor without a \<open>blockName\<close>, and no answer is stored under the empty name, so the rule as
  worded makes it false; \<open>checkCondition\<close> returns true, because \<open>!condition.blockName\<close>
  holds for the empty string as well.
\<close>

theorem checkCondition_empty_blockName:
  "checkCondition (Some \<lparr>blockName = Some [], cond_value = JStr ''yes''\<rparr>) Map.empty
   \<and> \<not> evaluateVisibility_spec (Some \<lparr>blockName = Some [], cond_value = JStr ''yes''\<rparr>) Map.empty"
  by (simp add: checkCondition_def evaluateVisibility_spec_def)

text \<open>
  C3, amended. \<open>checkCondition\<close> returns true when the condition is null or its \<open>blockName\<close>
  is null, absent or the empty string. Otherwise, when the answer stored under \<open>blockName\<close>
  is an array it returns true iff the condition's value is a member; when another value is
  stored it returns true iff that value strictly equals the condition's value; and when
  nothing is stored it compares what the plain answers object yields for the name:
  \<open>undefined\<close> for an ordinary name, so the condition is false unless its value is
  \<open>undefined\<close>, and the inherited member for a name of \<open>Object.prototype\<close> such as
  \<open>toString\<close>, so the condition is false.
\<close>

theorem checkCondition_cases:
  "checkCondition None vals
   \<and> (blockName c = None \<or> blockName c = Some [] \<longrightarrow> checkCondition (Some c) vals)
   \<and> (blockName c = Some bn \<and> bn \<noteq> [] \<and> vals bn = Some (Arr xs)
        \<longrightarrow> checkCondition (Some c) vals = (cond_value c \<in> set xs))
   \<and> (blockName c = Some bn \<and> bn \<noteq> [] \<and> vals bn = Some (Prim p)
        \<longrightarrow> checkCondition (Some c) vals = (p = cond_value c))
   \<and> (blockName c = Some bn \<and> bn \<noteq> [] \<and> vals bn = Some (Ref r)
        \<longrightarrow> \<not> checkCondition (Some c) vals)
   \<and> (blockName c = Some bn \<and> bn \<noteq> [] \<and> vals bn = None \<and> bn \<notin> set object_prototype_names
        \<longrightarrow> checkCondition (Some c) vals = (cond_value c = JUndefined))
   \<and> (blockName c = Some bn \<and> bn \<noteq> [] \<and> vals bn = None \<and> bn \<in> set object_prototype_names
        \<longrightarrow> \<not> checkCondition (Some c) vals)"
  by (auto simp: checkCondition_def lookup_def)

text \<open>
  The examples of the specification: \<open>{q1: "yes"}\<close>, \<open>{q1: "no"}\<close> and \<open>{}\<close> against
  \<open>{blockName: "q1", value: "yes"}\<close>; a null \<open>blockName\<close>; and the multi-choice answers
  \<open>["A", "B"]\<close> and \<open>["A"]\<close> against the value \<open>"B"\<close>. Last, \<open>{}\<close> against
  \<open>{blockName: "toString"}\<close>, whose value is \<open>undefined\<close>.
\<close>

lemma ordinary_names:
  "''q1'' \<notin> set object_prototype_names" "''opts'' \<notin> set object_prototype_names"
  "''toString'' \<in> set object_prototype_names"
  by (simp_all add: object_prototype_names_def)

theorem checkCondition_cases_witness:
  "checkCondition (Some \<lparr>blockName = Some ''q1'', cond_value = JStr ''yes''\<rparr>)
      [''q1'' \<mapsto> Prim (JStr ''yes'')]
   \<and> \<not> checkCondition (Some \<lparr>blockName = Some ''q1'', cond_value = JStr ''yes''\<rparr>)
      [''q1'' \<mapsto> Prim (JStr ''no'')]
   \<and> \<not> checkCondition (Some \<lparr>blockName = Some ''q1'', cond_value = JStr ''yes''\<rparr>) Map.empty
   \<and> checkCondition (Some \<lparr>blockName = None, cond_value = JStr ''yes''\<rparr>)
      [''q1'' \<mapsto> Prim (JStr ''no'')]
   \<and> checkCondition (Some \<lparr>blockName = Some ''opts'', cond_value = JStr ''B''\<rparr>)
      [''opts'' \<mapsto> Arr [JStr ''A'', JStr ''B'']]
   \<and> \<not> checkCondition (Some \<lparr>blockName = Some ''opts'', cond_value = JStr ''B''\<rparr>)
      [''opts'' \<mapsto> Arr [JStr ''A'']]
   \<and> \<not> checkCondition (Some \<lparr>blockName = Some ''toString'', cond_value = JUndefined\<rparr>) Map.empty"
  using
    checkCondition_cases [of "[''q1'' \<mapsto> Prim (JStr ''yes'')]"
      "\<lparr>blockName = Some ''q1'', cond_value = JStr ''yes''\<rparr>" "''q1''" "[]" "JStr ''yes''"]
    checkCondition_cases [of "[''q1'' \<mapsto> Prim (JStr ''no'')]"
      "\<lparr>blockName = Some ''q1'', cond_value = JStr ''yes''\<rparr>" "''q1''" "[]" "JStr ''no''"]
    checkCondition_cases [of "Map.empty"
      "\<lparr>blockName = Some ''q1'', cond_value = JStr ''yes''\<rparr>" "''q1''" "[]" "JNull"]
    checkCondition_cases [of "[''q1'' \<mapsto> Prim (JStr ''no'')]"
      "\<lparr>blockName = None, cond_value = JStr ''yes''\<rparr>" "''q1''" "[]" "JNull"]
    checkCondition_cases [of "[''opts'' \<mapsto> Arr [JStr ''A'', JStr ''B'']]"
      "\<lparr>blockName = Some ''opts'', cond_value = JStr ''B''\<rparr>" "''opts''"
      "[JStr ''A'', JStr ''B'']" "JNull"]
    checkCondition_cases [of "[''opts'' \<mapsto> Arr [JStr ''A'']]"
      "\<lparr>blockName = Some ''opts'', cond_value = JStr ''B''\<rparr>" "''opts''" "[JStr ''A'']" "JNull"]
    checkCondition_cases [of "Map.empty"
      "\<lparr>blockName = Some ''toString'', cond_value = JUndefined\<rparr>" "''toString''" "[]" "JNull"]
  by (simp add: ordinary_names)

section \<open>Recording answers: the checkbox toggle\<close>

lemma check_appends:
  "existing_or_empty prev name = Arr xs \<Longrightarrow>
   handleCheckboxChange name opt True prev = Inr (prev(name \<mapsto> Arr (xs @ [JStr opt])))"
  by (simp add: handleCheckboxChange_def)

lemma uncheck_removes:
  "existing_or_empty prev name = Arr xs \<Longrightarrow>
   handleCheckboxChange name opt False prev
     = Inr (prev(name \<mapsto> Arr (filter (\<lambda>item. item \<noteq> JStr opt) xs)))"
  by (simp add: handleCheckboxChange_def)

lemma existing_after_store: "existing_or_empty (prev(name \<mapsto> Arr xs)) name = Arr xs"
  by (simp add: existing_or_empty_def lookup_def)

text \<open>
  C4, counterexample. The toggle works on the list already stored: starting from the stored
  answer \<open>["C"]\<close>, checking "A", checking "B" and unchecking "A" leaves \<open>["C", "B"]\<close>, not
  \<open>["B"]\<close>.
\<close>

theorem checkbox_toggle_from_C:
  "map_sum id (\<lambda>m. m ''opts'')
     (checkbox_events ''opts'' [(''A'', True), (''B'', True), (''A'', False)]
        [''opts'' \<mapsto> Arr [JStr ''C'']])
   = Inr (Some (Arr [JStr ''C'', JStr ''B'']))"
  by (simp add: handleCheckboxChange_def existing_or_empty_def lookup_def)

lemma existing_never_stored:
  "prev name = None \<Longrightarrow> name \<notin> set object_prototype_names \<Longrightarrow> existing_or_empty prev name = Arr []"
  "prev name = None \<Longrightarrow> name \<in> set object_prototype_names \<Longrightarrow> existing_or_empty prev name = Ref name"
  by (simp_all add: existing_or_empty_def lookup_def)

text \<open>
  C4, amended. Recording answers for a multi-choice block works on the list that
  \<open>prev[name] || []\<close> yields: the stored list, or the empty list for a block never answered
  whose name is not a member of \<open>Object.prototype\<close>. Checking an option appends it,
  unchecking removes all its occurrences, and checking "A", then "B", then unchecking "A"
  yields that list without "A" followed by "B"; that is \<open>["B"]\<close> when the list was empty
  or held nothing but "A". For a block never answered whose name is a member of
  \<open>Object.prototype\<close>, such as \<open>toString\<close>, the update fails with a \<open>TypeError\<close>.
  Single-valued blocks are overwritten, other keys being left alone.
\<close>

theorem recordAnswer_toggle:
  "(existing_or_empty prev name = Arr xs \<longrightarrow>
      handleCheckboxChange name opt True prev = Inr (prev(name \<mapsto> Arr (xs @ [JStr opt])))
    \<and> handleCheckboxChange name opt False prev
        = Inr (prev(name \<mapsto> Arr (filter (\<lambda>item. item \<noteq> JStr opt) xs)))
    \<and> checkbox_events name [(''A'', True), (''B'', True), (''A'', False)] prev
        = Inr (prev(name \<mapsto> Arr (filter (\<lambda>item. item \<noteq> JStr ''A'') xs @ [JStr ''B''])))
    \<and> (set xs \<subseteq> {JStr ''A''} \<longrightarrow>
          checkbox_events name [(''A'', True), (''B'', True), (''A'', False)] prev
            = Inr (prev(name \<mapsto> Arr [JStr ''B'']))))
   \<and> lookup (handleValueChange name v prev) name = v
   \<and> (k \<noteq> name \<longrightarrow> lookup (handleValueChange name v prev) k = lookup prev k)
   \<and> (prev name = None \<and> name \<notin> set object_prototype_names
        \<longrightarrow> existing_or_empty prev name = Arr [])
   \<and> (prev name = None \<and> name \<in> set object_prototype_names
        \<longrightarrow> handleCheckboxChange name opt checked prev = Inl TypeError)"
proof -
  have ev: "checkbox_events name [(''A'', True), (''B'', True), (''A'', False)] prev
        = Inr (prev(name \<mapsto> Arr (filter (\<lambda>item. item \<noteq> JStr ''A'') xs @ [JStr ''B''])))"
    if "existing_or_empty prev name = Arr xs"
    using that by (simp add: check_appends uncheck_removes existing_after_store)
  have flt: "filter (\<lambda>item. item \<noteq> JStr ''A'') xs = []" if "set xs \<subseteq> {JStr ''A''}"
    using that by (auto simp: filter_empty_conv)
  have err: "handleCheckboxChange name opt checked prev = Inl TypeError"
    if "prev name = None" "name \<in> set object_prototype_names"
    using existing_never_stored(2) [of prev name] that
    by (simp add: handleCheckboxChange_def Let_def)
  have lk: "lookup (handleValueChange name v prev) name = v"
    "k \<noteq> name \<Longrightarrow> lookup (handleValueChange name v prev) k = lookup prev k"
    by (simp_all add: handleValueChange_def lookup_def)
  show ?thesis
    using ev flt err lk existing_never_stored(1) [of prev name]
    by (simp add: check_appends uncheck_removes)
qed

theorem recordAnswer_toggle_witness:
  "existing_or_empty Map.empty ''opts'' = Arr []
   \<and> checkbox_events ''opts'' [(''A'', True), (''B'', True), (''A'', False)] Map.empty
       = Inr [''opts'' \<mapsto> Arr [JStr ''B'']]
   \<and> handleCheckboxChange ''toString'' ''A'' True Map.empty = Inl TypeError"
proof -
  have n: "Map.empty ''opts'' = (None :: jsval option)" "Map.empty ''toString'' = (None :: jsval option)"
    by simp_all
  have h: "set ([] :: jsprim list) \<subseteq> {JStr ''A''}"
    by simp
  from recordAnswer_toggle [of Map.empty "''opts''" "[]" "''A''" "Prim JNull" "''k''" True]
    n(1) ordinary_names(2)
  have e: "existing_or_empty Map.empty ''opts'' = Arr []"
    by blast
  from recordAnswer_toggle [of Map.empty "''opts''" "[]" "''A''" "Prim JNull" "''k''" True] e h
  have t: "checkbox_events ''opts'' [(''A'', True), (''B'', True), (''A'', False)] Map.empty
       = Inr [''opts'' \<mapsto> Arr [JStr ''B'']]"
    by blast
  from recordAnswer_toggle [of Map.empty "''toString''" "[]" "''A''" "Prim JNull" "''k''" True]
    n(2) ordinary_names(3)
  have f: "handleCheckboxChange ''toString'' ''A'' True Map.empty = Inl TypeError"
    by blast
  from e t f show ?thesis by blast
qed

section \<open>Page navigation\<close>

lemma findIndex_bounds: "- 1 \<le> findIndex P xs \<and> findIndex P xs < int (length xs)"
  by (induction xs) (auto simp: Let_def)

lemma findIndex_found:
  "\<exists>x \<in> set xs. P x \<Longrightarrow>
     0 \<le> findIndex P xs \<and> P (xs ! nat (findIndex P xs))
     \<and> (\<forall>j < nat (findIndex P xs). \<not> P (xs ! j))"
proof (induction xs)
  case Nil
  then show ?case by simp
next
  case (Cons x xs)
  show ?case
  proof (cases "P x")
    case True
    then show ?thesis by simp
  next
    case False
    with Cons.prems have ex: "\<exists>x \<in> set xs. P x" by auto
    from Cons.IH [OF ex] have ih: "0 \<le> findIndex P xs" "P (xs ! nat (findIndex P xs))"
      "\<forall>j < nat (findIndex P xs). \<not> P (xs ! j)" by auto
    have n: "nat (findIndex P xs + 1) = Suc (nat (findIndex P xs))"
      using ih(1) by simp
    show ?thesis
      using False ih n by (auto simp: Let_def less_Suc_eq_0_disj)
  qed
qed

lemma nth_page_id: "i < length (pages script) \<Longrightarrow> page_id (pages script ! i) \<in> page_ids script"
  by (auto simp: page_ids_def)

lemma page_ids_script0: "page_ids script0 = {''p1'', ''p2'', ''p3''}"
  by (auto simp: page_ids_def script0_def)

lemma currentIndex_script0:
  "currentIndex script0 (onPage ''p1'') = 0"
  "currentIndex script0 (onPage ''p2'') = 1"
  "currentIndex script0 (onPage ''p3'') = 2"
  by (simp_all add: currentIndex_def script0_def onPage_def)

lemma pages_script0: "length (pages script0) = 3"
  "page_id (pages script0 ! 0) = ''p1''"
  "page_id (pages script0 ! Suc 0) = ''p2''"
  "page_id (pages script0 ! Suc (Suc 0)) = ''p3''"
  by (simp_all add: script0_def)

lemma currentPageId_onPage: "currentPageId (onPage p) = p"
  by (simp add: onPage_def)

text \<open>
  C5. Let the current page be a member of the page sequence; \<open>currentIndex\<close> is then the
  position of the first page carrying the current identifier (the page the component
  shows), and the only such position when identifiers are distinct. A \<open>next\<close> action on
  the last position leaves the state unchanged and on any earlier position moves the
  pointer to the page at the following position; a \<open>previous\<close> action on the first position
  leaves the state unchanged and on any later position moves the pointer to the page at
  the preceding position.
\<close>

theorem next_previous_clamped:
  assumes "currentPageId st \<in> page_ids script"
  shows "nat (currentIndex script st) < length (pages script)
     \<and> page_id (pages script ! nat (currentIndex script st)) = currentPageId st
     \<and> (\<forall>j < nat (currentIndex script st). page_id (pages script ! j) \<noteq> currentPageId st)
     \<and> (distinct (map page_id (pages script)) \<longrightarrow>
          (\<forall>k < length (pages script).
             page_id (pages script ! k) = currentPageId st \<longrightarrow> k = nat (currentIndex script st)))
     \<and> (action_type a = ''next'' \<longrightarrow>
          handleButtonClick script a st =
            (if Suc (nat (currentIndex script st)) = length (pages script) then st
             else st\<lparr>currentPageId := page_id (pages script ! Suc (nat (currentIndex script st)))\<rparr>))
     \<and> (action_type a = ''previous'' \<longrightarrow>
          handleButtonClick script a st =
            (if nat (currentIndex script st) = 0 then st
             else st\<lparr>currentPageId := page_id (pages script ! (nat (currentIndex script st) - 1))\<rparr>))"
proof -
  let ?P = "\<lambda>p. page_id p = currentPageId st"
  let ?i = "findIndex ?P (pages script)"
  from assms have ex: "\<exists>p \<in> set (pages script). ?P p"
    by (auto simp: page_ids_def)
  from findIndex_found [OF ex] have f: "0 \<le> ?i" "?P (pages script ! nat ?i)"
    "\<forall>j < nat ?i. \<not> ?P (pages script ! j)" by auto
  from findIndex_bounds [of ?P "pages script"] have b: "?i < int (length (pages script))" by simp
  have n1: "nat (?i + 1) = Suc (nat ?i)" using f(1) by simp
  have n2: "nat (?i - 1) = nat ?i - 1" using f(1) by simp
  have lt: "(?i < int (length (pages script)) - 1) = (Suc (nat ?i) \<noteq> length (pages script))"
    using f(1) b by auto
  have gt: "(0 < ?i) = (nat ?i \<noteq> 0)" using f(1) by auto
  have dk: "k = nat ?i"
    if "distinct (map page_id (pages script))" "k < length (pages script)"
      "page_id (pages script ! k) = currentPageId st" for k
  proof -
    have i: "nat ?i < length (map page_id (pages script))"
      using f(1) b by simp
    have k: "k < length (map page_id (pages script))"
      using that(2) by simp
    have "map page_id (pages script) ! k = map page_id (pages script) ! nat ?i"
      using that f b by simp
    then show ?thesis
      using nth_eq_iff_index_eq [OF that(1) k i] by blast
  qed
  show ?thesis
    using f b dk by (simp add: handleButtonClick_def currentIndex_def n1 n2 lt gt)
qed

theorem next_previous_clamped_witness:
  "currentPageId (onPage ''p2'') \<in> page_ids script0
   \<and> currentPageId (handleButtonClick script0 nextAction (onPage ''p2'')) = ''p3''
   \<and> handleButtonClick script0 nextAction (onPage ''p3'') = onPage ''p3''
   \<and> currentPageId (handleButtonClick script0 previousAction (onPage ''p2'')) = ''p1''
   \<and> handleButtonClick script0 previousAction (onPage ''p1'') = onPage ''p1''"
proof -
  have m: "currentPageId (onPage ''p1'') \<in> page_ids script0"
    "currentPageId (onPage ''p2'') \<in> page_ids script0"
    "currentPageId (onPage ''p3'') \<in> page_ids script0"
    by (simp_all add: page_ids_script0 currentPageId_onPage)
  have t: "action_type nextAction = ''next''" "action_type previousAction = ''previous''"
    by (simp_all add: nextAction_def previousAction_def)
  have "handleButtonClick script0 nextAction (onPage ''p2'') = (onPage ''p2'')\<lparr>currentPageId := ''p3''\<rparr>"
    using next_previous_clamped [OF m(2), of nextAction] t
    by (simp add: currentIndex_script0 pages_script0 numeral_2_eq_2)
  moreover have "handleButtonClick script0 nextAction (onPage ''p3'') = onPage ''p3''"
    using next_previous_clamped [OF m(3), of nextAction] t
    by (simp add: currentIndex_script0 pages_script0)
  moreover have "handleButtonClick script0 previousAction (onPage ''p2'') = (onPage ''p2'')\<lparr>currentPageId := ''p1''\<rparr>"
    using next_previous_clamped [OF m(2), of previousAction] t
    by (simp add: currentIndex_script0 pages_script0)
  moreover have "handleButtonClick script0 previousAction (onPage ''p1'') = onPage ''p1''"
    using next_previous_clamped [OF m(1), of previousAction] t
    by (simp add: currentIndex_script0 pages_script0)
  ultimately show ?thesis
    using m(2) by simp
qed

section \<open>The page pointer and dangling identifiers\<close>

lemma handleButtonClick_keeps_page:
  assumes "currentPageId st \<in> page_ids script" and "navigate_ok script a"
  shows "currentPageId (handleButtonClick script a st) \<in> page_ids script"
proof -
  let ?i = "currentIndex script st"
  have b: "- 1 \<le> ?i" "?i < int (length (pages script))"
    using findIndex_bounds [of "\<lambda>p. page_id p = currentPageId st" "pages script"]
    by (simp_all add: currentIndex_def)
  have nx: "page_id (pages script ! nat (?i + 1)) \<in> page_ids script"
    if "?i < int (length (pages script)) - 1"
    using that b by (intro nth_page_id) auto
  have pv: "page_id (pages script ! nat (?i - 1)) \<in> page_ids script" if "0 < ?i"
    using that b by (intro nth_page_id) auto
  show ?thesis
    using assms nx pv
    by (auto simp: handleButtonClick_def navigate_ok_def split: option.splits)
qed

lemma dispatchAll_keeps_page:
  "currentPageId st \<in> page_ids script \<Longrightarrow> \<forall>a \<in> set as. navigate_ok script a \<Longrightarrow>
   currentPageId (dispatchAll script as st) \<in> page_ids script"
  by (induction as arbitrary: st) (auto simp: handleButtonClick_keeps_page)

text \<open>
  C6, counterexample. From the start page of the sample script, one \<open>navigate\<close> to an
  identifier that no page carries leaves \<open>currentPageId\<close> outside the page set:
  \<open>handleButtonClick\<close> stores any non-empty \<open>pageId\<close> without looking it up.
\<close>

theorem navigate_breaks_page_invariant:
  "currentPageId (dispatchAll script0 [navigateTo ''ghost''] (initPreview script0))
     \<notin> page_ids script0"
  by (simp add: page_ids_script0 navigateTo_def handleButtonClick_def)

text \<open>
  C6, amended. When the start page exists in the script and every \<open>navigate\<close> action of the
  sequence targets an existing page (or carries no page identifier), \<open>currentPageId\<close>
  references a page of the script after every prefix of the sequence; \<open>next\<close>, \<open>previous\<close>,
  \<open>save\<close> and unknown actions are unrestricted.
\<close>

theorem currentPageId_invariant:
  assumes "startPageId script \<in> page_ids script"
    and "\<forall>a \<in> set as. navigate_ok script a"
  shows "currentPageId (dispatchAll script (take n as) (initPreview script)) \<in> page_ids script"
proof -
  have "\<forall>a \<in> set (take n as). navigate_ok script a"
    using assms(2) by (auto dest: in_set_takeD)
  moreover have "currentPageId (initPreview script) \<in> page_ids script"
    using assms(1) by (simp add: initPreview_def)
  ultimately show ?thesis
    by (rule dispatchAll_keeps_page [rotated])
qed

theorem currentPageId_invariant_witness:
  "startPageId script0 \<in> page_ids script0
   \<and> navigate_ok script0 nextAction
   \<and> navigate_ok script0 (navigateTo ''p3'')
   \<and> navigate_ok script0 previousAction
   \<and> currentPageId (dispatchAll script0 (take 2 [nextAction, navigateTo ''p3'', previousAction])
        (initPreview script0)) \<in> page_ids script0"
proof -
  have s: "startPageId script0 \<in> page_ids script0"
    by (simp add: page_ids_script0) (simp add: script0_def)
  have ok: "navigate_ok script0 nextAction" "navigate_ok script0 (navigateTo ''p3'')"
    "navigate_ok script0 previousAction"
    by (simp_all add: navigate_ok_def page_ids_script0 nextAction_def previousAction_def
        navigateTo_def)
  then have all: "\<forall>a \<in> set [nextAction, navigateTo ''p3'', previousAction]. navigate_ok script0 a"
    by simp
  from currentPageId_invariant [OF s all, of 2] s ok show ?thesis by blast
qed

text \<open>
  C7, counterexample. On the sample script, whose start page shows a block, a \<open>navigate\<close> to
  an absent identifier raises no alert, and afterwards the component shows no block and an
  empty page name: a blank page, silently.
\<close>

theorem navigate_dangling_is_silent:
  "alerts (handleButtonClick script0 (navigateTo ''ghost'') (initPreview script0)) = []
   \<and> shownBlocks script0 (initPreview script0) \<noteq> []
   \<and> shownBlocks script0 (handleButtonClick script0 (navigateTo ''ghost'') (initPreview script0)) = []
   \<and> shownPageName script0 (handleButtonClick script0 (navigateTo ''ghost'') (initPreview script0)) = []"
  by (simp add: navigateTo_def handleButtonClick_def initPreview_def shownBlocks_def
      shownPageName_def currentPage_def script0_def checkCondition_def)

text \<open>
  C7, amended. When a \<open>navigate\<close> action targets a non-empty page identifier absent from the
  script, the interpreter does not fail: it stores the identifier as the current page and
  changes nothing else (no alert, no error value), no page is found for it, and the
  component shows an empty page name and no block.
\<close>

theorem navigate_dangling:
  assumes "action_type a = ''navigate''" and "pageId a = Some target"
    and "target \<noteq> []" and "target \<notin> page_ids script"
  shows "handleButtonClick script a st = st\<lparr>currentPageId := target\<rparr>
     \<and> currentPage script (handleButtonClick script a st) = None
     \<and> shownPageName script (handleButtonClick script a st) = []
     \<and> shownBlocks script (handleButtonClick script a st) = []"
proof -
  have h: "handleButtonClick script a st = st\<lparr>currentPageId := target\<rparr>"
    using assms by (simp add: handleButtonClick_def)
  have c: "currentPage script (st\<lparr>currentPageId := target\<rparr>) = None"
    using assms(4) by (auto simp: currentPage_def page_ids_def find_None_iff)
  show ?thesis
    using h c by (simp add: shownPageName_def shownBlocks_def)
qed

theorem navigate_dangling_witness:
  "action_type (navigateTo ''ghost'') = ''navigate''
   \<and> pageId (navigateTo ''ghost'') = Some ''ghost''
   \<and> ''ghost'' \<noteq> [] \<and> ''ghost'' \<notin> page_ids script0
   \<and> handleButtonClick script0 (navigateTo ''ghost'') (onPage ''p1'')
       = (onPage ''p1'')\<lparr>currentPageId := ''ghost''\<rparr>
   \<and> shownBlocks script0 (handleButtonClick script0 (navigateTo ''ghost'') (onPage ''p1'')) = []"
proof -
  have a: "action_type (navigateTo ''ghost'') = ''navigate''"
    "pageId (navigateTo ''ghost'') = Some ''ghost''"
    by (simp_all add: navigateTo_def)
  have g: "''ghost'' \<noteq> []" "''ghost'' \<notin> page_ids script0"
    by (simp_all add: page_ids_script0)
  from navigate_dangling [OF a g, of "onPage ''p1''"] a g show ?thesis by blast
qed

section \<open>The agent console: invariant\<close>

lemmas handler_defs =
  handleLoginClick_def handleNextCall_def handleEndCall_def handlePause_def handleResume_def
  wrapUpTimeout_def setCtiStatus_def setStatusTimer_def setCurrentContact_def statusEffect_def
  unmount_def

lemma wrapUpTimeout_unmounted:
  "\<not> mounted v \<Longrightarrow> wrapUpTimeout v = v\<lparr>timeoutsFired := Suc (timeoutsFired v)\<rparr>"
  by (simp add: handler_defs)

lemma fold_wrapUpTimeout_unmounted:
  "\<not> mounted v \<Longrightarrow>
     fold (\<lambda>_. wrapUpTimeout) ts v = v\<lparr>timeoutsFired := timeoutsFired v + length ts\<rparr>"
  by (induction ts arbitrary: v) (simp_all add: wrapUpTimeout_unmounted)

lemma second_unmounted:
  "\<not> mounted v \<Longrightarrow> \<not> intervalRunning v \<Longrightarrow>
     second v = v\<lparr>timeouts := map (\<lambda>t. t - 1) (filter (\<lambda>t. 1 < t) (timeouts v)),
                  timeoutsFired := timeoutsFired v + length (filter (\<lambda>t. t \<le> 1) (timeouts v))\<rparr>"
  by (simp add: second_def fold_wrapUpTimeout_unmounted)

lemma second_no_timeouts:
  "timeouts v = [] \<Longrightarrow>
     second v = (if intervalRunning v then v\<lparr>statusTimer := Suc (statusTimer v)\<rparr> else v)"
  by (simp add: second_def)

lemma second_wrap_up_pending:
  "timeouts v = [t] \<Longrightarrow> 1 < t \<Longrightarrow>
     second v = (if intervalRunning v then v\<lparr>timeouts := [t - 1], statusTimer := Suc (statusTimer v)\<rparr>
                 else v\<lparr>timeouts := [t - 1]\<rparr>)"
  by (simp add: second_def)

lemma second_wrap_up_due:
  "timeouts v = [t] \<Longrightarrow> t \<le> 1 \<Longrightarrow> mounted v \<Longrightarrow> ctiStatus v = WRAP_UP \<Longrightarrow>
     second v = v\<lparr>timeouts := [], ctiStatus := WAITING, intervalRunning := True,
                  currentContact := None, statusTimer := 0,
                  timeoutsFired := Suc (timeoutsFired v)\<rparr>"
  by (simp add: second_def handler_defs)

lemma session_inv_mount: "session_inv (mount a cs)"
  by (simp add: session_inv_def mount_def statusEffect_def)

lemma session_inv_step: "session_inv v \<Longrightarrow> session_inv (step e v)"
proof (cases e)
  case Second
  assume inv: "session_inv v"
  show ?thesis
  proof (cases "mounted v")
    case False
    with inv have "\<not> intervalRunning v" by (simp add: session_inv_def)
    with False inv Second show ?thesis
      by (simp add: second_unmounted session_inv_def)
  next
    case m: True
    show ?thesis
    proof (cases "ctiStatus v = WRAP_UP")
      case False
      with m inv have "timeouts v = []" by (simp add: session_inv_def)
      with m False inv Second show ?thesis
        by (auto simp: second_no_timeouts session_inv_def)
    next
      case w: True
      with m inv have t: "timeouts v = [10 - statusTimer v]" "statusTimer v < 10"
        by (simp_all add: session_inv_def)
      show ?thesis
      proof (cases "statusTimer v = 9")
        case True
        with t have "10 - statusTimer v \<le> 1" by simp
        from second_wrap_up_due [OF t(1) this m w] Second m show ?thesis
          by (simp add: session_inv_def)
      next
        case False
        with t have "1 < 10 - statusTimer v" by simp
        from second_wrap_up_pending [OF t(1) this] Second inv m w t(2) False
        show ?thesis
          by (auto simp: session_inv_def)
      qed
    qed
  qed
qed (auto simp: session_inv_def handler_defs split: option.splits)

lemma session_inv_run: "session_inv v \<Longrightarrow> session_inv (run evs v)"
  by (induction evs arbitrary: v) (simp_all add: session_inv_step)

lemma session_inv_reachable: "session_inv (run evs (mount a cs))"
  by (simp add: session_inv_run session_inv_mount)

section \<open>The agent console: props are never written\<close>

lemma wrapUpTimeout_frame:
  "agent (wrapUpTimeout v) = agent v \<and> campaigns (wrapUpTimeout v) = campaigns v"
  by (simp add: handler_defs Let_def)

lemma fold_wrapUpTimeout_frame:
  "agent (fold (\<lambda>_. wrapUpTimeout) ts v) = agent v
   \<and> campaigns (fold (\<lambda>_. wrapUpTimeout) ts v) = campaigns v"
  by (induction ts arbitrary: v) (simp_all add: wrapUpTimeout_frame)

lemma handlers_frame:
  "agent (handleLoginClick v) = agent v \<and> campaigns (handleLoginClick v) = campaigns v"
  "agent (handleNextCall v) = agent v \<and> campaigns (handleNextCall v) = campaigns v"
  "agent (handleEndCall v) = agent v \<and> campaigns (handleEndCall v) = campaigns v"
  "agent (handlePause v) = agent v \<and> campaigns (handlePause v) = campaigns v"
  "agent (handleResume v) = agent v \<and> campaigns (handleResume v) = campaigns v"
  "agent (unmount v) = agent v \<and> campaigns (unmount v) = campaigns v"
  by (simp_all add: handler_defs Let_def split: option.splits)

lemma second_frame: "agent (second v) = agent v \<and> campaigns (second v) = campaigns v"
  by (simp add: second_def Let_def fold_wrapUpTimeout_frame)

lemma step_frame: "agent (step e v) = agent v \<and> campaigns (step e v) = campaigns v"
  by (cases e) (simp_all add: handlers_frame second_frame)

lemma run_frame: "agent (run evs v) = agent v \<and> campaigns (run evs v) = campaigns v"
  by (induction evs arbitrary: v) (simp_all add: step_frame)

lemma mount_props: "agent (mount a cs) = a \<and> campaigns (mount a cs) = cs"
  by (simp add: mount_def statusEffect_def)

lemma run_append: "run (xs @ ys) v = run ys (run xs v)"
  by (induction xs arbitrary: v) simp_all

lemmas eval_defs = mount_def handler_defs second_def agentCampaign_def nextContact_def
  agent0_def campaign0_def Let_def

lemma login0:
  "mounted (run [ClickLogin] (mount a cs)) \<and> ctiStatus (run [ClickLogin] (mount a cs)) = WAITING
   \<and> statusTimer (run [ClickLogin] (mount a cs)) = 0
   \<and> notices (run [ClickLogin] (mount a cs)) = []
   \<and> intervalRunning (run [ClickLogin] (mount a cs))"
  by (simp add: mount_def handler_defs)

lemma agentCampaign0: "agentCampaign agent0 [campaign0, campaignDone] = Some campaign0"
  by (simp add: agentCampaign_def agent0_def campaign0_def)

lemma agentCampaignDone: "agentCampaign agentDone [campaign0, campaignDone] = Some campaignDone"
  by (simp add: agentCampaign_def agentDone_def campaign0_def campaignDone_def)

lemma contacts_campaign0:
  "length (contacts campaign0) = 3" "contacts campaign0 ! Suc 0 = contact2"
  "contact_status (contacts campaign0 ! 0) = ''done''" "contact_status contact2 = ''pending''"
  by (simp_all add: campaign0_def contact2_def)

lemma nextContact_campaign0: "nextContact campaign0 = Some contact2"
  by (simp add: nextContact_def campaign0_def contact2_def)

section \<open>Next call\<close>

lemma nextContact_first_pending:
  assumes "i < length (contacts camp)" "contact_status (contacts camp ! i) = ''pending''"
    "\<forall>j < i. contact_status (contacts camp ! j) \<noteq> ''pending''"
  shows "nextContact camp = Some (contacts camp ! i)"
  using assms unfolding nextContact_def find_Some_iff by blast

lemma nextContact_none:
  "\<forall>c \<in> set (contacts camp). contact_status c \<noteq> ''pending'' \<Longrightarrow> nextContact camp = None"
  unfolding nextContact_def find_None_iff by blast

lemma handleNextCall_found:
  assumes "agentCampaign (agent v) (campaigns v) = Some camp" "nextContact camp = Some c"
    "mounted v" "ctiStatus v = WAITING"
  shows "handleNextCall v = v\<lparr>currentContact := Some c, ctiStatus := IN_CALL,
           intervalRunning := True, statusTimer := 0\<rparr>"
  using assms by (simp add: handler_defs)

lemma handleNextCall_empty:
  assumes "agentCampaign (agent v) (campaigns v) = Some camp" "nextContact camp = None"
    "ctiStatus v = WAITING"
  shows "handleNextCall v = v\<lparr>notices := notices v @ [NoMoreContacts]\<rparr>"
  using assms by (simp add: handler_defs)

text \<open>
  C2. In a console reached from \<open>mount\<close> that is waiting, with an active assigned campaign:
  if position \<open>i\<close> holds the first contact of the campaign's sequence whose status is
  \<open>pending\<close>, clicking next-call makes that contact the current contact and the status
  \<open>IN_CALL\<close>, with no alert; if no contact is pending, one alert is shown, the status
  remains \<open>WAITING\<close> and no contact is held.
\<close>

theorem request_next_call:
  assumes v: "v = run evs (mount a cs)"
    and m: "mounted v" and w: "ctiStatus v = WAITING"
    and c: "agentCampaign a cs = Some camp"
  shows "(\<forall>i < length (contacts camp).
            contact_status (contacts camp ! i) = ''pending''
            \<and> (\<forall>j < i. contact_status (contacts camp ! j) \<noteq> ''pending'')
            \<longrightarrow> currentContact (step ClickNextCall v) = Some (contacts camp ! i)
                \<and> ctiStatus (step ClickNextCall v) = IN_CALL
                \<and> notices (step ClickNextCall v) = notices v)
     \<and> ((\<forall>c \<in> set (contacts camp). contact_status c \<noteq> ''pending'')
            \<longrightarrow> notices (step ClickNextCall v) = notices v @ [NoMoreContacts]
                \<and> ctiStatus (step ClickNextCall v) = WAITING
                \<and> currentContact (step ClickNextCall v) = None)"
proof -
  have ac: "agentCampaign (agent v) (campaigns v) = Some camp"
    using v c by (simp add: run_frame mount_props)
  have "session_inv v"
    using v by (simp add: session_inv_reachable)
  with m w have none: "currentContact v = None"
    by (simp add: session_inv_def)
  have s: "step ClickNextCall v = handleNextCall v"
    using m w by simp
  show ?thesis
  proof (intro conjI allI impI)
    fix i
    assume "i < length (contacts camp)"
      and "contact_status (contacts camp ! i) = ''pending''
           \<and> (\<forall>j < i. contact_status (contacts camp ! j) \<noteq> ''pending'')"
    then have n: "nextContact camp = Some (contacts camp ! i)"
      by (simp add: nextContact_first_pending)
    show "currentContact (step ClickNextCall v) = Some (contacts camp ! i)"
      "ctiStatus (step ClickNextCall v) = IN_CALL"
      "notices (step ClickNextCall v) = notices v"
      unfolding s by (simp_all add: handleNextCall_found [OF ac n m w])
  next
    assume "\<forall>c \<in> set (contacts camp). contact_status c \<noteq> ''pending''"
    then have n: "nextContact camp = None"
      by (rule nextContact_none)
    show "notices (step ClickNextCall v) = notices v @ [NoMoreContacts]"
      "ctiStatus (step ClickNextCall v) = WAITING"
      "currentContact (step ClickNextCall v) = None"
      unfolding s using w none by (simp_all add: handleNextCall_empty [OF ac n w])
  qed
qed

theorem request_next_call_witness:
  "mounted (run [ClickLogin] (mount agent0 [campaign0, campaignDone]))
   \<and> ctiStatus (run [ClickLogin] (mount agent0 [campaign0, campaignDone])) = WAITING
   \<and> agentCampaign agent0 [campaign0, campaignDone] = Some campaign0
   \<and> currentContact (step ClickNextCall (run [ClickLogin] (mount agent0 [campaign0, campaignDone])))
       = Some contact2
   \<and> ctiStatus (step ClickNextCall (run [ClickLogin] (mount agent0 [campaign0, campaignDone])))
       = IN_CALL
   \<and> agentCampaign agentDone [campaign0, campaignDone] = Some campaignDone
   \<and> notices (step ClickNextCall (run [ClickLogin] (mount agentDone [campaign0, campaignDone])))
       = [NoMoreContacts]
   \<and> ctiStatus (step ClickNextCall (run [ClickLogin] (mount agentDone [campaign0, campaignDone])))
       = WAITING
   \<and> currentContact (step ClickNextCall (run [ClickLogin] (mount agentDone [campaign0, campaignDone])))
       = None"
proof -
  let ?cs = "[campaign0, campaignDone]"
  let ?v = "run [ClickLogin] (mount agent0 ?cs)"
  let ?u = "run [ClickLogin] (mount agentDone ?cs)"
  have m: "mounted ?v" "ctiStatus ?v = WAITING" "mounted ?u" "ctiStatus ?u = WAITING"
    "notices ?u = []"
    using login0 [of agent0 ?cs] login0 [of agentDone ?cs] by simp_all
  have first: "Suc 0 < length (contacts campaign0)"
    "contact_status (contacts campaign0 ! Suc 0) = ''pending''
     \<and> (\<forall>j < Suc 0. contact_status (contacts campaign0 ! j) \<noteq> ''pending'')"
    by (simp_all add: contacts_campaign0)
  have none: "\<forall>c \<in> set (contacts campaignDone). contact_status c \<noteq> ''pending''"
    by (simp add: campaignDone_def)
  from request_next_call [OF refl m(1,2) agentCampaign0] first
  have "currentContact (step ClickNextCall ?v) = Some (contacts campaign0 ! Suc 0)"
    and a2: "ctiStatus (step ClickNextCall ?v) = IN_CALL"
    by blast+
  then have a1: "currentContact (step ClickNextCall ?v) = Some contact2"
    by (simp only: contacts_campaign0)
  from request_next_call [OF refl m(3,4) agentCampaignDone] none
  have "notices (step ClickNextCall ?u) = notices ?u @ [NoMoreContacts]"
    and b2: "ctiStatus (step ClickNextCall ?u) = WAITING"
      "currentContact (step ClickNextCall ?u) = None"
    by blast+
  then have b1: "notices (step ClickNextCall ?u) = [NoMoreContacts]"
    by (simp only: m(5) append_Nil)
  note a = a1 a2 and b = b1 b2
  from m a b agentCampaign0 agentCampaignDone show ?thesis
    by blast
qed

text \<open>
  C8, counterexample. For an agent with no campaign, next-call on a waiting console returns
  the very same state, its list of alerts still empty: nothing tells the caller that no
  campaign is assigned.
\<close>

theorem no_campaign_nothing_reported:
  "agentCampaign agentNoCampaign [campaign0] = None
   \<and> ctiStatus (run [ClickLogin] (mount agentNoCampaign [campaign0])) = WAITING
   \<and> step ClickNextCall (run [ClickLogin] (mount agentNoCampaign [campaign0]))
       = run [ClickLogin] (mount agentNoCampaign [campaign0])
   \<and> notices (step ClickNextCall (run [ClickLogin] (mount agentNoCampaign [campaign0]))) = []"
  by (simp add: mount_def handler_defs agentCampaign_def agentNoCampaign_def)

text \<open>
  C8, amended. When the agent has no active assigned campaign, request-next-call is a silent
  no-op: the session state is left unchanged, and nothing is signalled (no alert, no
  change of any kind).
\<close>

theorem no_campaign_silent:
  assumes "agentCampaign (agent v) (campaigns v) = None"
  shows "handleNextCall v = v \<and> step ClickNextCall v = v"
  using assms by (simp add: handleNextCall_def)

theorem no_campaign_silent_witness:
  "agentCampaign (agent (run [ClickLogin] (mount agentNoCampaign [campaign0])))
     (campaigns (run [ClickLogin] (mount agentNoCampaign [campaign0]))) = None
   \<and> handleNextCall (run [ClickLogin] (mount agentNoCampaign [campaign0]))
       = run [ClickLogin] (mount agentNoCampaign [campaign0])"
proof -
  have n: "agentCampaign (agent (run [ClickLogin] (mount agentNoCampaign [campaign0])))
     (campaigns (run [ClickLogin] (mount agentNoCampaign [campaign0]))) = None"
    by (simp only: run_frame mount_props) (simp add: agentCampaign_def agentNoCampaign_def)
  from no_campaign_silent [OF n] n show ?thesis by blast
qed

section \<open>Wrap-up and its timeout\<close>

lemma wrap_up_progress:
  "mounted u \<Longrightarrow> ctiStatus u = WRAP_UP \<Longrightarrow> intervalRunning u \<Longrightarrow> timeouts u = [t] \<Longrightarrow> k < t \<Longrightarrow>
     run (replicate k Second) u = u\<lparr>timeouts := [t - k], statusTimer := statusTimer u + k\<rparr>"
proof (induction k arbitrary: u t)
  case 0
  then show ?case by simp
next
  case (Suc k)
  from Suc.prems have t1: "1 < t" by simp
  let ?u = "u\<lparr>timeouts := [t - 1], statusTimer := Suc (statusTimer u)\<rparr>"
  have s: "second u = ?u"
    using second_wrap_up_pending [OF Suc.prems(4) t1] Suc.prems(3) by simp
  have "run (replicate k Second) ?u
        = ?u\<lparr>timeouts := [(t - 1) - k], statusTimer := statusTimer ?u + k\<rparr>"
    using Suc.prems by (intro Suc.IH) simp_all
  then show ?case
    by (simp add: s)
qed

lemma handleEndCall_in_call:
  assumes "mounted v" "ctiStatus v = IN_CALL" "intervalRunning v" "timeouts v = []"
  shows "handleEndCall v = v\<lparr>ctiStatus := WRAP_UP, statusTimer := 0, timeouts := [10]\<rparr>"
  using assms by (simp add: handler_defs Let_def)

lemma ten_seconds: "replicate 10 Second = replicate 9 Second @ [Second]"
  by (simp add: numeral_eq_Suc replicate_append_same)

lemma wrap_up_returns:
  assumes inv: "session_inv v" and m: "mounted v" and c: "ctiStatus v = IN_CALL"
  shows "run (ClickEndCall # replicate 10 Second) v
         = v\<lparr>ctiStatus := WAITING, currentContact := None, statusTimer := 0,
             timeoutsFired := Suc (timeoutsFired v)\<rparr>"
proof -
  from inv m c have i: "intervalRunning v" and t: "timeouts v = []"
    by (simp_all add: session_inv_def)
  let ?u = "v\<lparr>ctiStatus := WRAP_UP, statusTimer := 0, timeouts := [10]\<rparr>"
  have e: "step ClickEndCall v = ?u"
    using m c by (simp add: handleEndCall_in_call [OF m c i t])
  have "run (replicate 9 Second) ?u = ?u\<lparr>timeouts := [10 - 9], statusTimer := statusTimer ?u + 9\<rparr>"
    using m i by (intro wrap_up_progress) simp_all
  then have n: "run (replicate 9 Second) ?u = ?u\<lparr>timeouts := [1], statusTimer := 9\<rparr>"
    by simp
  let ?w = "?u\<lparr>timeouts := [1], statusTimer := 9\<rparr>"
  have d: "second ?w = ?w\<lparr>timeouts := [], ctiStatus := WAITING, intervalRunning := True,
                  currentContact := None, statusTimer := 0,
                  timeoutsFired := Suc (timeoutsFired ?w)\<rparr>"
    using m by (intro second_wrap_up_due [where t = 1]) simp_all
  have "run (ClickEndCall # replicate 10 Second) v = run (replicate 10 Second) (step ClickEndCall v)"
    by (simp only: run.simps)
  also have "\<dots> = run [Second] (run (replicate 9 Second) ?u)"
    by (simp only: e ten_seconds run_append)
  also have "\<dots> = second ?w"
    by (simp only: n run.simps step.simps)
  finally show ?thesis
    using d i t by simp
qed

text \<open>
  C1. After \<open>handleEndCall\<close> the console is in wrap-up and, left alone, returns to waiting
  ten seconds later with no contact and the counter at 0 (\<open>wrap_up_returns\<close>). But the
  timeout is never cancelled. In the session below the agent logs out after three seconds
  of wrap-up: the component is unmounted, the timeout is still pending with seven seconds
  to go, and seven seconds later its callback runs on the unmounted component (whose state
  React no longer updates, so the status stays \<open>WRAP_UP\<close>).
\<close>

theorem wrap_up_timeout_fires_after_logout:
  "\<not> mounted (run logoutInWrapUp (mount agent0 [campaign0]))
   \<and> timeouts (run logoutInWrapUp (mount agent0 [campaign0])) = [7]
   \<and> timeoutsFired (run logoutInWrapUp (mount agent0 [campaign0])) = 0
   \<and> timeouts (run (logoutInWrapUp @ sevenSeconds) (mount agent0 [campaign0])) = []
   \<and> timeoutsFired (run (logoutInWrapUp @ sevenSeconds) (mount agent0 [campaign0])) = 1
   \<and> ctiStatus (run (logoutInWrapUp @ sevenSeconds) (mount agent0 [campaign0])) = WRAP_UP"
  by (simp add: logoutInWrapUp_def sevenSeconds_def eval_defs)

text \<open>
  C10. No handler of the console, nor the wrap-up timeout, changes the campaigns it was
  given, whatever the events. So when the first pending contact of the assigned campaign
  is \<open>c\<close>, next-call on a waiting console selects \<open>c\<close>, and after end-call and the ten
  seconds of wrap-up (back to waiting, no contact held) next-call selects \<open>c\<close> again.
\<close>

theorem contacts_never_consumed:
  assumes v: "v = run evs (mount a cs)" and m: "mounted v" and w: "ctiStatus v = WAITING"
    and c: "agentCampaign a cs = Some camp" and n: "nextContact camp = Some c"
  shows "campaigns (run es v) = cs
     \<and> campaigns (handleLoginClick x) = campaigns x
     \<and> campaigns (handleNextCall x) = campaigns x
     \<and> campaigns (handleEndCall x) = campaigns x
     \<and> campaigns (handlePause x) = campaigns x
     \<and> campaigns (handleResume x) = campaigns x
     \<and> campaigns (wrapUpTimeout x) = campaigns x
     \<and> currentContact (step ClickNextCall v) = Some c
     \<and> ctiStatus (run ([ClickNextCall, ClickEndCall] @ replicate 10 Second) v) = WAITING
     \<and> currentContact (run ([ClickNextCall, ClickEndCall] @ replicate 10 Second) v) = None
     \<and> currentContact
          (run ([ClickNextCall, ClickEndCall] @ replicate 10 Second @ [ClickNextCall]) v) = Some c
     \<and> ctiStatus
          (run ([ClickNextCall, ClickEndCall] @ replicate 10 Second @ [ClickNextCall]) v) = IN_CALL"
proof -
  have fr: "campaigns (run es v) = cs"
    using v by (simp add: run_frame mount_props)
  have ac: "agentCampaign (agent v) (campaigns v) = Some camp"
    using v c by (simp add: run_frame mount_props)
  have inv: "session_inv v"
    using v by (simp add: session_inv_reachable)
  let ?v1 = "v\<lparr>currentContact := Some c, ctiStatus := IN_CALL,
           intervalRunning := True, statusTimer := 0\<rparr>"
  have s1: "step ClickNextCall v = ?v1"
    using m w handleNextCall_found [OF ac n m w] by simp
  have inv1: "session_inv ?v1"
    using session_inv_step [OF inv, of ClickNextCall] by (simp only: s1)
  let ?v2 = "?v1\<lparr>ctiStatus := WAITING, currentContact := None, statusTimer := 0,
             timeoutsFired := Suc (timeoutsFired ?v1)\<rparr>"
  have "run (ClickEndCall # replicate 10 Second) ?v1 = ?v2"
    using m by (intro wrap_up_returns [OF inv1]) simp_all
  then have r2: "run ([ClickNextCall, ClickEndCall] @ replicate 10 Second) v = ?v2"
    by (simp only: append_Cons append_Nil run.simps s1)
  have ac2: "agentCampaign (agent ?v2) (campaigns ?v2) = Some camp"
    using ac by simp
  have "handleNextCall ?v2 = ?v2\<lparr>currentContact := Some c, ctiStatus := IN_CALL,
           intervalRunning := True, statusTimer := 0\<rparr>"
    using m by (intro handleNextCall_found [OF ac2 n]) simp_all
  then have s3: "step ClickNextCall ?v2 = ?v2\<lparr>currentContact := Some c, ctiStatus := IN_CALL,
           intervalRunning := True, statusTimer := 0\<rparr>"
    using m by simp
  have "run ([ClickNextCall, ClickEndCall] @ replicate 10 Second @ [ClickNextCall]) v
        = run [ClickNextCall] (run ([ClickNextCall, ClickEndCall] @ replicate 10 Second) v)"
    by (simp only: run_append append_assoc [symmetric])
  also have "\<dots> = step ClickNextCall ?v2"
    by (simp only: r2 run.simps)
  finally have r3: "run ([ClickNextCall, ClickEndCall] @ replicate 10 Second @ [ClickNextCall]) v
        = ?v2\<lparr>currentContact := Some c, ctiStatus := IN_CALL,
           intervalRunning := True, statusTimer := 0\<rparr>"
    by (simp only: s3)
  have a: "currentContact (step ClickNextCall v) = Some c"
    by (simp only: s1) simp
  have b: "ctiStatus (run ([ClickNextCall, ClickEndCall] @ replicate 10 Second) v) = WAITING"
    "currentContact (run ([ClickNextCall, ClickEndCall] @ replicate 10 Second) v) = None"
    by (simp_all only: r2) simp_all
  have d: "currentContact
          (run ([ClickNextCall, ClickEndCall] @ replicate 10 Second @ [ClickNextCall]) v) = Some c"
    "ctiStatus
          (run ([ClickNextCall, ClickEndCall] @ replicate 10 Second @ [ClickNextCall]) v) = IN_CALL"
    by (simp_all only: r3) simp_all
  show ?thesis
    using fr a b d by (simp only: handlers_frame wrapUpTimeout_frame)
qed

theorem contacts_never_consumed_witness:
  "mounted (run [ClickLogin] (mount agent0 [campaign0, campaignDone]))
   \<and> ctiStatus (run [ClickLogin] (mount agent0 [campaign0, campaignDone])) = WAITING
   \<and> agentCampaign agent0 [campaign0, campaignDone] = Some campaign0
   \<and> nextContact campaign0 = Some contact2
   \<and> campaigns (run ([ClickNextCall, ClickEndCall] @ replicate 10 Second @ [ClickNextCall])
        (run [ClickLogin] (mount agent0 [campaign0, campaignDone]))) = [campaign0, campaignDone]
   \<and> currentContact (step ClickNextCall (run [ClickLogin] (mount agent0 [campaign0, campaignDone])))
       = Some contact2
   \<and> currentContact
        (run ([ClickNextCall, ClickEndCall] @ replicate 10 Second @ [ClickNextCall])
          (run [ClickLogin] (mount agent0 [campaign0, campaignDone]))) = Some contact2"
proof -
  let ?v = "run [ClickLogin] (mount agent0 [campaign0, campaignDone])"
  have m: "mounted ?v" "ctiStatus ?v = WAITING"
    using login0 [of agent0 "[campaign0, campaignDone]"] by simp_all
  from contacts_never_consumed [OF refl m agentCampaign0 nextContact_campaign0,
      of "[ClickNextCall, ClickEndCall] @ replicate 10 Second @ [ClickNextCall]"]
    m agentCampaign0 nextContact_campaign0
  show ?thesis by blast
qed

section \<open>The elapsed counter\<close>

lemma status_change_resets:
  assumes inv: "session_inv v" and ch: "ctiStatus (step e v) \<noteq> ctiStatus v"
  shows "statusTimer (step e v) = 0"
proof (cases e)
  case Second
  show ?thesis
  proof (cases "mounted v")
    case False
    with inv have "\<not> intervalRunning v" by (simp add: session_inv_def)
    with False ch Second show ?thesis
      by (simp add: second_unmounted)
  next
    case m: True
    show ?thesis
    proof (cases "ctiStatus v = WRAP_UP")
      case False
      with m inv have "timeouts v = []" by (simp add: session_inv_def)
      with ch Second show ?thesis
        by (simp add: second_no_timeouts split: if_splits)
    next
      case w: True
      with m inv have t: "timeouts v = [10 - statusTimer v]" "statusTimer v < 10"
        by (simp_all add: session_inv_def)
      show ?thesis
      proof (cases "statusTimer v = 9")
        case True
        with t have "10 - statusTimer v \<le> 1" by simp
        from second_wrap_up_due [OF t(1) this m w] Second show ?thesis
          by simp
      next
        case False
        with t have "1 < 10 - statusTimer v" by simp
        from second_wrap_up_pending [OF t(1) this] Second ch show ?thesis
          by (simp split: if_splits)
      qed
    qed
  qed
qed (use ch in \<open>auto simp: handler_defs Let_def split: option.splits if_splits\<close>)

lemma second_counts:
  assumes inv: "session_inv v" and m: "mounted v" and l: "ctiStatus v \<noteq> LOGGED_OUT"
    and same: "ctiStatus (step Second v) = ctiStatus v"
  shows "statusTimer (step Second v) = Suc (statusTimer v)"
proof (cases "ctiStatus v = WRAP_UP")
  case False
  with m inv l have "timeouts v = []" "intervalRunning v" by (simp_all add: session_inv_def)
  then show ?thesis
    by (simp add: second_no_timeouts)
next
  case w: True
  with m inv have t: "timeouts v = [10 - statusTimer v]" "statusTimer v < 10"
    and i: "intervalRunning v"
    by (simp_all add: session_inv_def)
  show ?thesis
  proof (cases "statusTimer v = 9")
    case True
    with t have "10 - statusTimer v \<le> 1" by simp
    from second_wrap_up_due [OF t(1) this m w] same w show ?thesis
      by simp
  next
    case False
    with t have "1 < 10 - statusTimer v" by simp
    from second_wrap_up_pending [OF t(1) this] i show ?thesis
      by simp
  qed
qed

lemma step_unmounted:
  assumes "\<not> mounted v" "\<not> intervalRunning v"
  shows "\<not> mounted (step e v) \<and> \<not> intervalRunning (step e v)
     \<and> statusTimer (step e v) = statusTimer v \<and> ctiStatus (step e v) = ctiStatus v
     \<and> currentContact (step e v) = currentContact v"
  using assms by (cases e) (simp_all add: second_unmounted)

lemma run_unmounted:
  "\<not> mounted v \<Longrightarrow> \<not> intervalRunning v \<Longrightarrow>
     \<not> mounted (run es v) \<and> \<not> intervalRunning (run es v)
     \<and> statusTimer (run es v) = statusTimer v \<and> ctiStatus (run es v) = ctiStatus v
     \<and> currentContact (run es v) = currentContact v"
proof (induction es arbitrary: v)
  case Nil
  then show ?case by simp
next
  case (Cons e es)
  from step_unmounted [OF Cons.prems, of e] Cons.IH [of "step e v"] show ?case
    by simp
qed

lemma logout_stops:
  assumes "session_inv v"
  shows "\<not> mounted (step ClickLogout v) \<and> \<not> intervalRunning (step ClickLogout v)
     \<and> statusTimer (step ClickLogout v) = statusTimer v
     \<and> ctiStatus (step ClickLogout v) = ctiStatus v"
  using assms by (auto simp: unmount_def session_inv_def)

text \<open>
  C9. In every console reached from \<open>mount\<close>: an event that changes the status leaves the
  counter at 0; while mounted the per-second interval exists exactly when the status is
  not \<open>LOGGED_OUT\<close>, and a second in which the status (not \<open>LOGGED_OUT\<close>) does not change
  increases the counter by exactly 1; in \<open>LOGGED_OUT\<close> the counter reads 0, no interval
  exists and a second leaves the counter at 0. Logging out unmounts the console: its
  interval is cleared and never exists again, whatever happens next; the application has
  no console state left; and the console that the next login mounts is \<open>LOGGED_OUT\<close> with
  the counter at 0 and no interval.
\<close>

theorem elapsed_counter:
  assumes v: "v = run evs (mount a cs)"
  shows "(ctiStatus (step e v) \<noteq> ctiStatus v \<longrightarrow> statusTimer (step e v) = 0)
     \<and> (mounted v \<longrightarrow> intervalRunning v = (ctiStatus v \<noteq> LOGGED_OUT))
     \<and> (mounted v \<and> ctiStatus v \<noteq> LOGGED_OUT \<and> ctiStatus (step Second v) = ctiStatus v
          \<longrightarrow> statusTimer (step Second v) = Suc (statusTimer v))
     \<and> (ctiStatus v = LOGGED_OUT
          \<longrightarrow> statusTimer v = 0 \<and> \<not> intervalRunning v \<and> statusTimer (step Second v) = 0)
     \<and> \<not> intervalRunning (run es (step ClickLogout v))
     \<and> (console app = Some v \<longrightarrow>
          console (appStep (Console ClickLogout) app) = None
          \<and> console (appStep (LoginSuccess a') (appStep (Console ClickLogout) app))
              = Some (mount a' (appCampaigns app)))
     \<and> ctiStatus (mount a' cs') = LOGGED_OUT
     \<and> statusTimer (mount a' cs') = 0
     \<and> \<not> intervalRunning (mount a' cs')"
proof -
  have inv: "session_inv v"
    using v by (simp add: session_inv_reachable)
  have lo: "statusTimer v = 0 \<and> \<not> intervalRunning v \<and> statusTimer (step Second v) = 0"
    if l: "ctiStatus v = LOGGED_OUT"
  proof -
    from inv l have z: "statusTimer v = 0" and i: "\<not> intervalRunning v"
      by (auto simp: session_inv_def split: if_splits)
    have "session_inv (step Second v)"
      using inv by (rule session_inv_step)
    moreover have "ctiStatus (step Second v) = LOGGED_OUT"
    proof (cases "mounted v")
      case True
      with inv l have "timeouts v = []" by (simp add: session_inv_def)
      with l show ?thesis by (simp add: second_no_timeouts)
    next
      case False
      with i l show ?thesis by (simp add: second_unmounted)
    qed
    ultimately have "statusTimer (step Second v) = 0"
      by (simp add: session_inv_def)
    with z i show ?thesis by simp
  qed
  from logout_stops [OF inv] run_unmounted [of "step ClickLogout v" es]
  have out: "\<not> intervalRunning (run es (step ClickLogout v))"
    by simp
  have app: "console (appStep (Console ClickLogout) app) = None
      \<and> console (appStep (LoginSuccess a') (appStep (Console ClickLogout) app))
          = Some (mount a' (appCampaigns app))"
    if "console app = Some v"
    using that by (simp add: onLogout_def onLoginSuccess_def)
  have fresh: "ctiStatus (mount a' cs') = LOGGED_OUT" "statusTimer (mount a' cs') = 0"
    "\<not> intervalRunning (mount a' cs')"
    by (simp_all add: mount_def statusEffect_def)
  have first: "(ctiStatus (step e v) \<noteq> ctiStatus v \<longrightarrow> statusTimer (step e v) = 0)
     \<and> (mounted v \<longrightarrow> intervalRunning v = (ctiStatus v \<noteq> LOGGED_OUT))
     \<and> (mounted v \<and> ctiStatus v \<noteq> LOGGED_OUT \<and> ctiStatus (step Second v) = ctiStatus v
          \<longrightarrow> statusTimer (step Second v) = Suc (statusTimer v))"
    using status_change_resets [OF inv, of e] second_counts [OF inv] inv
    by (auto simp: session_inv_def)
  from first lo out app fresh show ?thesis
    by blast
qed

text \<open>
  A console one second after the agent started the session: pausing resets the counter,
  another second makes it 2, and logging out leaves the application without a console
  until the next login mounts one that reads \<open>LOGGED_OUT\<close> and 0.
\<close>

theorem elapsed_counter_witness:
  "ctiStatus (step ClickPause (run [ClickLogin, Second] (mount agent0 [campaign0])))
     \<noteq> ctiStatus (run [ClickLogin, Second] (mount agent0 [campaign0]))
   \<and> statusTimer (step ClickPause (run [ClickLogin, Second] (mount agent0 [campaign0]))) = 0
   \<and> mounted (run [ClickLogin, Second] (mount agent0 [campaign0]))
   \<and> statusTimer (step Second (run [ClickLogin, Second] (mount agent0 [campaign0]))) = 2
   \<and> ctiStatus (mount agent0 [campaign0]) = LOGGED_OUT
   \<and> statusTimer (step Second (mount agent0 [campaign0])) = 0
   \<and> console (appRun [LoginSuccess agent0, Console ClickLogin, Console Second] (startApp [campaign0]))
       = Some (run [ClickLogin, Second] (mount agent0 [campaign0]))
   \<and> console (appStep (Console ClickLogout)
        (appRun [LoginSuccess agent0, Console ClickLogin, Console Second] (startApp [campaign0])))
       = None
   \<and> console (appStep (LoginSuccess agentDone) (appStep (Console ClickLogout)
        (appRun [LoginSuccess agent0, Console ClickLogin, Console Second] (startApp [campaign0]))))
       = Some (mount agentDone [campaign0])
   \<and> statusTimer (mount agentDone [campaign0]) = 0"
proof -
  let ?v = "run [ClickLogin, Second] (mount agent0 [campaign0])"
  let ?app = "appRun [LoginSuccess agent0, Console ClickLogin, Console Second] (startApp [campaign0])"
  have q: "ctiStatus (step ClickPause ?v) \<noteq> ctiStatus ?v" "mounted ?v"
    "ctiStatus ?v \<noteq> LOGGED_OUT" "ctiStatus (step Second ?v) = ctiStatus ?v"
    "statusTimer ?v = 1"
    by (simp_all add: eval_defs)
  have l: "ctiStatus (run [] (mount agent0 [campaign0])) = LOGGED_OUT"
    by (simp add: eval_defs)
  have c: "console ?app = Some ?v" and cs: "appCampaigns ?app = [campaign0]"
    by (simp_all add: startApp_def onLoginSuccess_def onLogout_def)
  from elapsed_counter [OF refl, where e = ClickPause and evs = "[ClickLogin, Second]"
      and a = agent0 and cs = "[campaign0]" and es = "[]" and app = ?app and a' = agentDone
      and cs' = "[campaign0]"] q c
  have a: "statusTimer (step ClickPause ?v) = 0"
    "statusTimer (step Second ?v) = 2"
    "console (appStep (Console ClickLogout) ?app) = None"
    "console (appStep (LoginSuccess agentDone) (appStep (Console ClickLogout) ?app))
      = Some (mount agentDone (appCampaigns ?app))"
    "statusTimer (mount agentDone [campaign0]) = 0"
    by simp_all
  from elapsed_counter [OF refl, where e = Second and evs = "[]" and a = agent0
      and cs = "[campaign0]"] l
  have b: "statusTimer (step Second (run [] (mount agent0 [campaign0]))) = 0"
    by blast
  from q a b l c show ?thesis
    by (simp only: run.simps cs) blast
qed

end
